theory Spec2Isabelle
  imports Complex_Main "HOL-Library.Log_Nat"
begin

section \<open>Python numbers\<close>

text \<open>
  The program (\<^verbatim>\<open>flask_app.py\<close>) mixes Python integers and floats. Integers are \<open>int\<close>.
  A float is the rational number it denotes; every arithmetic operation on floats computes
  the exact rational result and rounds it to the nearest binary64 value, ties to even
  (\<open>fl\<close>). Infinities and NaN are not modelled: the floats of this program are clock
  readings, small counts and their quotients, far below \<open>2 ^ 1024\<close>.
\<close>

definition round_half_even :: "rat \<Rightarrow> int" where
  "round_half_even x =
     (let f = \<lfloor>x\<rfloor>; d = x - of_int f
      in if d < 1 / 2 then f else if 1 / 2 < d then f + 1
         else if even f then f else f + 1)"

text \<open>The binary exponent \<open>e\<close> of a non-zero rational: \<open>2 ^ e \<le> \<bar>x\<bar> < 2 ^ (e + 1)\<close>.\<close>

definition fexp :: "rat \<Rightarrow> int" where
  "fexp x = (if 1 \<le> \<bar>x\<bar> then bitlen \<lfloor>\<bar>x\<bar>\<rfloor> - 1
             else - bitlen (\<lceil>1 / \<bar>x\<bar>\<rceil> - 1))"

text \<open>
  Rounding to binary64: 53 significant bits, the unit in the last place never below
  \<open>2 ^ - 1074\<close> (subnormal numbers).
\<close>

definition fl :: "rat \<Rightarrow> rat" where
  "fl x = (if x = 0 then 0
           else let q = max (fexp x - 52) (- 1074)
                in of_int (round_half_even (x / 2 powi q)) * 2 powi q)"

text \<open>\<^verbatim>\<open>a - b\<close> and \<^verbatim>\<open>a * b\<close> on floats; an integer operand is converted first.\<close>

definition float_sub :: "rat \<Rightarrow> rat \<Rightarrow> rat" where
  "float_sub a b = fl (a - b)"

definition float_mul :: "rat \<Rightarrow> rat \<Rightarrow> rat" where
  "float_mul a b = fl (a * b)"

definition int_to_float :: "int \<Rightarrow> rat" where
  "int_to_float n = fl (of_int n)"

datatype py_error = ZeroDivisionError | IndexError

text \<open>\<^verbatim>\<open>a / b\<close> on two integers: the correctly rounded quotient, or ZeroDivisionError.\<close>

definition int_truediv :: "int \<Rightarrow> int \<Rightarrow> py_error + rat" where
  "int_truediv a b =
     (if b = 0 then Inl ZeroDivisionError else Inr (fl (of_int a / of_int b)))"

text \<open>\<^verbatim>\<open>int(x)\<close> on a float truncates towards zero.\<close>

definition py_int :: "rat \<Rightarrow> int" where
  "py_int x = (if 0 \<le> x then \<lfloor>x\<rfloor> else \<lceil>x\<rceil>)"

text \<open>\<^verbatim>\<open>round(x)\<close> on a float gives the nearest integer, ties to even.\<close>

definition py_round :: "rat \<Rightarrow> int" where
  "py_round x = round_half_even x"

text \<open>
  A value that is an integer on one path and a float on another
  (\<^verbatim>\<open>len(last60) / 60 if last60 else 0\<close>) keeps its tag.
\<close>

datatype number = PyInt int | PyFloat rat

text \<open>
  \<^verbatim>\<open>round(x, ndigits)\<close> with \<open>ndigits \<ge> 0\<close>: an integer is returned as it is; a float is
  rounded, ties to even, at that decimal place of its exact value, and the decimal result is
  converted back to the nearest float.
\<close>

fun py_round_ndigits :: "number \<Rightarrow> nat \<Rightarrow> number" where
  "py_round_ndigits (PyInt i) n = PyInt i"
| "py_round_ndigits (PyFloat x) n =
     PyFloat (fl (of_int (round_half_even (x * 10 ^ n)) / 10 ^ n))"

text \<open>\<^verbatim>\<open>xs[i]\<close>: a negative index counts from the end; out of range raises IndexError.\<close>

definition py_getitem :: "'a list \<Rightarrow> int \<Rightarrow> py_error + 'a" where
  "py_getitem xs i =
     (if 0 \<le> i \<and> i < int (length xs) then Inr (xs ! nat i)
      else if i < 0 \<and> - int (length xs) \<le> i then Inr (xs ! nat (int (length xs) + i))
      else Inl IndexError)"

text \<open>Sequencing of two steps, the first of which may raise.\<close>

definition then_err :: "py_error + 'a \<Rightarrow> ('a \<Rightarrow> py_error + 'b) \<Rightarrow> py_error + 'b" where
  "then_err r k = (case r of Inl e \<Rightarrow> Inl e | Inr v \<Rightarrow> k v)"

section \<open>The program state\<close>

text \<open>
  A sample is the tuple \<^verbatim>\<open>(t, endpoint, duration_ms, status)\<close> that \<^verbatim>\<open>record\<close> appends;
  the code reads its components as \<^verbatim>\<open>d[0]\<close>, \<^verbatim>\<open>d[2]\<close> and \<^verbatim>\<open>d[3]\<close>.
\<close>

type_synonym sample = "rat \<times> string \<times> int \<times> int"

definition sample_t :: "sample \<Rightarrow> rat" where
  "sample_t d = fst d"

definition sample_duration_ms :: "sample \<Rightarrow> int" where
  "sample_duration_ms d = fst (snd (snd d))"

definition sample_status :: "sample \<Rightarrow> int" where
  "sample_status d = snd (snd (snd d))"

definition TOKENS_PER_SEC :: int where
  "TOKENS_PER_SEC = 5"

definition BURST :: int where
  "BURST = 10"

text \<open>\<^verbatim>\<open>WINDOW = deque(maxlen=2000)\<close>\<close>

definition WINDOW_maxlen :: nat where
  "WINDOW_maxlen = 2000"

text \<open>The module's globals.\<close>

record qos_state =
  tokens :: int
  last_refill :: rat
  WINDOW :: "sample list"

text \<open>The globals after the module is loaded at clock reading \<open>t0\<close>.\<close>

definition initial_state :: "rat \<Rightarrow> qos_state" where
  "initial_state t0 = \<lparr>tokens = BURST, last_refill = t0, WINDOW = []\<rparr>"

section \<open>The token bucket\<close>

text \<open>Every function takes the reading of \<^verbatim>\<open>time.time()\<close> it makes as its first argument.\<close>

definition refill_tokens :: "rat \<Rightarrow> qos_state \<Rightarrow> qos_state" where
  "refill_tokens t s =
     (let elapsed = float_sub t (last_refill s);
          add = py_int (float_mul elapsed (int_to_float TOKENS_PER_SEC))
      in if 0 < add
         then s\<lparr>tokens := min BURST (tokens s + add), last_refill := t\<rparr>
         else s)"

definition qos_admit :: "rat \<Rightarrow> qos_state \<Rightarrow> (bool \<times> int) \<times> qos_state" where
  "qos_admit t s =
     (let s1 = refill_tokens t s
      in if 0 < tokens s1
         then ((True, 0), s1\<lparr>tokens := tokens s1 - 1\<rparr>)
         else ((False, 1), s1))"

text \<open>
  A sequence of \<^verbatim>\<open>qos_admit\<close> calls, one per clock reading: the decisions in order and
  the final state; and the states seen before the first call and after each call.
\<close>

fun admit_run :: "rat list \<Rightarrow> qos_state \<Rightarrow> (bool \<times> int) list \<times> qos_state" where
  "admit_run [] s = ([], s)"
| "admit_run (t # ts) s =
     (let (r, s1) = qos_admit t s; (rs, s2) = admit_run ts s1 in (r # rs, s2))"

fun admit_states :: "rat list \<Rightarrow> qos_state \<Rightarrow> qos_state list" where
  "admit_states [] s = [s]"
| "admit_states (t # ts) s = s # admit_states ts (snd (qos_admit t s))"

section \<open>The metrics window\<close>

text \<open>
  \<^verbatim>\<open>deque.append\<close> on a bounded deque: the item is added on the right, and when the
  length then exceeds \<open>maxlen\<close> the leftmost item is dropped.
\<close>

definition deque_append :: "nat \<Rightarrow> 'a list \<Rightarrow> 'a \<Rightarrow> 'a list" where
  "deque_append maxlen dq x =
     (let dq1 = dq @ [x] in if maxlen < length dq1 then tl dq1 else dq1)"

definition record_sample :: "rat \<Rightarrow> string \<Rightarrow> int \<Rightarrow> int \<Rightarrow> qos_state \<Rightarrow> qos_state" where
  "record_sample t endpoint duration_ms status s =
     s\<lparr>WINDOW := deque_append WINDOW_maxlen (WINDOW s) (t, endpoint, duration_ms, status)\<rparr>"

text \<open>A sequence of \<^verbatim>\<open>record\<close> calls, each given by the sample it appends.\<close>

fun record_all :: "sample list \<Rightarrow> qos_state \<Rightarrow> qos_state" where
  "record_all [] s = s"
| "record_all ((t, endpoint, duration_ms, status) # ds) s =
     record_all ds (record_sample t endpoint duration_ms status s)"

text \<open>\<^verbatim>\<open>WINDOW.clear()\<close> in \<^verbatim>\<open>qos_reset\<close>.\<close>

definition qos_reset :: "qos_state \<Rightarrow> qos_state" where
  "qos_reset s = s\<lparr>WINDOW := []\<rparr>"

record latency =
  p50 :: int
  p90 :: int
  p95 :: int
  p99 :: int
  max_ms :: int

record token_bucket_policy =
  tokens_per_sec :: int
  burst :: int

record qos_policy_dict =
  token_bucket :: token_bucket_policy

record metrics =
  count :: int
  error_rate :: number
  rps_last_60s :: number
  latency_ms :: latency
  jitter_ms_avg_absdiff :: number
  qos_policy :: qos_policy_dict

text \<open>What \<^verbatim>\<open>compute_metrics\<close> returns: the empty dictionary or the metrics dictionary.\<close>

datatype payload = EmptyDict | MetricsDict metrics

text \<open>The inner function \<^verbatim>\<open>pct\<close>, with the list \<^verbatim>\<open>durations\<close> it closes over.\<close>

definition pct :: "int list \<Rightarrow> int \<Rightarrow> py_error + int" where
  "pct durations p =
     then_err (int_truediv p 100) (\<lambda>r.
       let idx = py_round (float_mul r (int_to_float (int (length durations) - 1)))
       in py_getitem durations (max 0 (min idx (int (length durations) - 1))))"

definition compute_metrics :: "rat \<Rightarrow> qos_state \<Rightarrow> (py_error + payload) \<times> qos_state" where
  "compute_metrics now s =
     (let data = WINDOW s
      in if data = [] then (Inr EmptyDict, s)
         else
          (let durations = sort (map sample_duration_ms data);
               errors = int (length (filter (\<lambda>d. 400 \<le> sample_status d) data));
               total = int (length data)
           in then_err (int_truediv errors total) (\<lambda>error_rate.
              let cutoff = float_sub now 60;
                  last60 = filter (\<lambda>d. cutoff \<le> sample_t d) data
              in then_err (if last60 \<noteq> []
                           then map_sum id PyFloat (int_truediv (int (length last60)) 60)
                           else Inr (PyInt 0)) (\<lambda>rps.
              let diffs = map (\<lambda>i. \<bar>durations ! i - durations ! (i - 1)\<bar>)
                              [1..<length durations]
              in then_err (if diffs \<noteq> []
                           then map_sum id PyFloat
                                  (int_truediv (sum_list diffs) (int (length diffs)))
                           else Inr (PyInt 0)) (\<lambda>jitter.
              then_err (pct durations 50) (\<lambda>v50.
              then_err (pct durations 90) (\<lambda>v90.
              then_err (pct durations 95) (\<lambda>v95.
              then_err (pct durations 99) (\<lambda>v99.
              then_err (py_getitem durations (- 1)) (\<lambda>vmax.
                Inr (MetricsDict
                  \<lparr>count = total,
                   error_rate = py_round_ndigits (PyFloat error_rate) 4,
                   rps_last_60s = py_round_ndigits rps 3,
                   latency_ms = \<lparr>p50 = v50, p90 = v90, p95 = v95, p99 = v99, max_ms = vmax\<rparr>,
                   jitter_ms_avg_absdiff = py_round_ndigits jitter 2,
                   qos_policy = \<lparr>token_bucket =
                     \<lparr>tokens_per_sec = TOKENS_PER_SEC, burst = BURST\<rparr>\<rparr>\<rparr>))))))))),
              s))"

section \<open>Auxiliary notions for the statements\<close>

text \<open>The number of tokens that \<^verbatim>\<open>refill_tokens\<close> computes at reading \<open>t\<close>.\<close>

definition refill_add :: "rat \<Rightarrow> rat \<Rightarrow> int" where
  "refill_add t t_last =
     py_int (float_mul (float_sub t t_last) (int_to_float TOKENS_PER_SEC))"

text \<open>
  The specification's \<open>add = floor (elapsed * R)\<close> with \<open>elapsed = now - t_last\<close>, in the
  program's float arithmetic.
\<close>

definition spec_add :: "rat \<Rightarrow> rat \<Rightarrow> int" where
  "spec_add now t_last =
     \<lfloor>float_mul (float_sub now t_last) (int_to_float TOKENS_PER_SEC)\<rfloor>"


text \<open>Step 5: the index \<open>round ((p / 100) * (total - 1))\<close>, clamped to \<open>[0, total - 1]\<close>.\<close>

definition spec_pct_index :: "int \<Rightarrow> nat \<Rightarrow> nat" where
  "spec_pct_index p len =
     nat (max 0 (min (py_round (float_mul (fl (of_int p / 100)) (int_to_float (int len - 1))))
                     (int len - 1)))"

text \<open>
  Step 6: the absolute differences of consecutive elements of the sorted durations, their
  average rounded to 2 decimal places; \<open>0\<close> for a single sample.
\<close>

definition spec_absdiffs :: "int list \<Rightarrow> int list" where
  "spec_absdiffs xs = map (\<lambda>(a, b). \<bar>b - a\<bar>) (zip xs (tl xs))"

definition spec_jitter :: "int list \<Rightarrow> number" where
  "spec_jitter sorted_durations =
     (if length sorted_durations = 1 then PyInt 0
      else py_round_ndigits
             (PyFloat (fl (of_int (sum_list (spec_absdiffs sorted_durations)) /
                           of_nat (length (spec_absdiffs sorted_durations))))) 2)"

text \<open>
  Step 4: the number of samples with \<open>timestamp \<ge> now - 60\<close>, divided by 60 and rounded to
  3 decimal places, or \<open>0\<close> when there is no such sample.
\<close>

definition spec_rps :: "rat \<Rightarrow> sample list \<Rightarrow> number" where
  "spec_rps now data =
     (let n = length (filter (\<lambda>d. float_sub now 60 \<le> sample_t d) data)
      in if n = 0 then PyInt 0 else py_round_ndigits (PyFloat (fl (of_nat n / 60))) 3)"

text \<open>Step 3: the share of samples with status 400 or more, rounded to 4 decimal places.\<close>

definition spec_error_rate :: "sample list \<Rightarrow> number" where
  "spec_error_rate data =
     py_round_ndigits
       (PyFloat (fl (of_nat (length (filter (\<lambda>d. 400 \<le> sample_status d) data)) /
                     of_nat (length data)))) 4"

text \<open>
  The same formulas in exact rational arithmetic, with ties rounded to even. A clock
  reading is on the grid \<open>g\<close> when it is a multiple of \<open>2 ^ - g\<close>; the readings of
  \<^verbatim>\<open>time.time()\<close> between the years 2004 and 2038 are binary64 values between \<open>2 ^ 30\<close>
  and \<open>2 ^ 31\<close>, multiples of \<open>2 ^ - 22\<close>.
\<close>

definition exact_add :: "rat \<Rightarrow> rat \<Rightarrow> int" where
  "exact_add now t_last = \<lfloor>(now - t_last) * of_int TOKENS_PER_SEC\<rfloor>"

definition on_grid :: "nat \<Rightarrow> rat \<Rightarrow> bool" where
  "on_grid g t \<longleftrightarrow> of_int \<lfloor>t * 2 ^ g\<rfloor> = t * 2 ^ g"



text \<open>
  \<open>round_decimal d q\<close> is \<open>q\<close> rounded at the \<open>d\<close>-th decimal place, ties to even;
  \<open>is_decimal_rounding d q r\<close> says that \<open>r\<close> has \<open>d\<close> decimal places and is nearest to \<open>q\<close>
  among such numbers, whichever way a tie is broken.
\<close>

definition round_decimal :: "nat \<Rightarrow> rat \<Rightarrow> rat" where
  "round_decimal d q = of_int (round_half_even (q * 10 ^ d)) / 10 ^ d"



text \<open>Two windows for the concrete checks.\<close>

definition example_window :: "sample list" where
  "example_window = [(1, ''/slow'', 30, 200), (2, ''/loss'', 10, 503), (3, ''/slow'', 50, 200),
              (4, ''/qos'', 20, 200), (5, ''/slow'', 40, 429)]"


section \<open>Facts about the rounding\<close>

lemma round_half_even_of_int: "round_half_even (of_int n) = n"
  by (simp add: round_half_even_def)

lemma round_half_even_ge_floor: "\<lfloor>x\<rfloor> \<le> round_half_even x"
  by (simp add: round_half_even_def Let_def)

lemma round_half_even_ge_int:
  assumes "of_int n \<le> x" shows "n \<le> round_half_even x"
proof -
  have "n \<le> \<lfloor>x\<rfloor>" using assms by (simp add: le_floor_iff)
  then show ?thesis using round_half_even_ge_floor [of x] by linarith
qed

lemma fexp_lower:
  assumes "x \<noteq> 0" shows "2 powi (fexp x) \<le> \<bar>x\<bar>"
proof (cases "1 \<le> \<bar>x\<bar>")
  case True
  define m where "m = \<lfloor>\<bar>x\<bar>\<rfloor>"
  have mpos: "0 < m" using True by (simp add: m_def)
  have b1: "1 \<le> bitlen m"
    using mpos bitlen_eq_zero_iff [of m] bitlen_nonneg [of m] by linarith
  have "2 ^ nat (bitlen m - 1) \<le> m" using bitlen_bounds [OF mpos] by simp
  then have "(of_int (2 ^ nat (bitlen m - 1)) :: rat) \<le> of_int m"
    by (simp only: of_int_le_iff)
  also have "\<dots> \<le> \<bar>x\<bar>" by (simp add: m_def)
  finally have "(2::rat) ^ nat (bitlen m - 1) \<le> \<bar>x\<bar>" by simp
  moreover have "(2::rat) powi (bitlen m - 1) = 2 ^ nat (bitlen m - 1)"
    using b1 by (simp add: power_int_nonneg_exp)
  ultimately show ?thesis using True by (simp add: fexp_def m_def)
next
  case False
  define y where "y = 1 / \<bar>x\<bar>"
  define m where "m = \<lceil>y\<rceil>"
  have xpos: "0 < \<bar>x\<bar>" using assms by simp
  have y1: "1 < y" using False xpos by (simp add: y_def)
  have m2: "2 \<le> m" using y1 unfolding m_def by (simp add: le_ceiling_iff)
  then have mpos: "0 < m - 1" by simp
  have "m - 1 < 2 ^ nat (bitlen (m - 1))" using bitlen_bounds [OF mpos] by simp
  then have "m \<le> 2 ^ nat (bitlen (m - 1))" by simp
  then have "(of_int m :: rat) \<le> of_int (2 ^ nat (bitlen (m - 1)))"
    by (simp only: of_int_le_iff)
  then have "(of_int m :: rat) \<le> 2 ^ nat (bitlen (m - 1))" by simp
  moreover have "y \<le> of_int m" by (simp add: m_def)
  ultimately have yle: "y \<le> 2 ^ nat (bitlen (m - 1))" by linarith
  have "(2::rat) powi (- bitlen (m - 1)) = 1 / 2 ^ nat (bitlen (m - 1))"
    using bitlen_nonneg [of "m - 1"] by (simp add: power_int_minus_divide power_int_nonneg_exp)
  also have "\<dots> \<le> 1 / y"
    using yle y1 by (simp add: frac_le)
  also have "1 / y = \<bar>x\<bar>" by (simp add: y_def)
  finally show ?thesis using False by (simp add: fexp_def m_def y_def)
qed

text \<open>Every binary64 value is a fixed point of the rounding.\<close>

lemma fl_representable:
  assumes m: "\<bar>m\<bar> < 2 ^ 53" and q: "- 1074 \<le> q"
  shows "fl (of_int m * 2 powi q) = of_int m * 2 powi q"
proof (cases "m = 0")
  case True
  then show ?thesis by (simp add: fl_def)
next
  case False
  define x :: rat where "x = of_int m * 2 powi q"
  have x0: "x \<noteq> 0" using False by (simp add: x_def)
  define q' where "q' = max (fexp x - 52) (- 1074)"
  have "\<bar>x\<bar> = of_int \<bar>m\<bar> * 2 powi q" by (simp add: x_def abs_mult)
  also have "\<dots> < of_int (2 ^ 53) * 2 powi q"
    using m by (intro mult_strict_right_mono) (simp_all only: of_int_less_iff, simp)
  also have "\<dots> = 2 powi (53 + q)" by (simp add: power_int_add)
  finally have lt: "2 powi (fexp x) < (2::rat) powi (53 + q)"
    using fexp_lower [OF x0] by linarith
  have "fexp x < 53 + q"
  proof (rule ccontr)
    assume "\<not> fexp x < 53 + q"
    then have "53 + q \<le> fexp x" by simp
    then have "(2::rat) powi (53 + q) \<le> 2 powi (fexp x)"
      by (intro power_int_increasing) simp_all
    with lt show False by simp
  qed
  then have le: "q' \<le> q" using q by (simp add: q'_def)
  have "x / 2 powi q' = of_int m * 2 powi (q - q')"
    by (simp add: x_def power_int_diff)
  also have "2 powi (q - q') = (2::rat) ^ nat (q - q')"
    using le by (simp add: power_int_nonneg_exp)
  also have "of_int m * (2::rat) ^ nat (q - q') = of_int (m * 2 ^ nat (q - q'))" by simp
  finally have "round_half_even (x / 2 powi q') = m * 2 ^ nat (q - q')"
    by (simp only: round_half_even_of_int)
  then have "fl x = of_int (m * 2 ^ nat (q - q')) * 2 powi q'"
    using x0 by (simp add: fl_def q'_def Let_def)
  also have "\<dots> = of_int m * (2 powi (q - q') * 2 powi q')"
    using le by (simp add: power_int_nonneg_exp)
  also have "2 powi (q - q') * 2 powi q' = (2::rat) powi q"
    by (simp add: power_int_add [symmetric])
  finally show ?thesis by (simp add: x_def)
qed

lemma fl_of_int:
  assumes "\<bar>m\<bar> < 2 ^ 53" shows "fl (of_int m) = of_int m"
  using fl_representable [OF assms, of 0] by simp

lemma fl_0: "fl 0 = 0"
  by (simp add: fl_def)

text \<open>
  Rounding never falls below a positive integer of at most 53 bits that the exact value
  reaches.
\<close>

lemma fl_ge_int:
  assumes k: "0 < k" "k \<le> 2 ^ 53" and x: "of_int k \<le> x"
  shows "of_int k \<le> fl x"
proof -
  have "(0::rat) < of_int k" using k by simp
  then have xpos: "0 < x" using x by linarith
  then have x0: "x \<noteq> 0" by simp
  define q where "q = max (fexp x - 52) (- 1074)"
  have flx: "fl x = of_int (round_half_even (x / 2 powi q)) * 2 powi q"
    using x0 by (simp add: fl_def q_def Let_def)
  show ?thesis
  proof (cases "q \<le> 0")
    case True
    have "of_int (k * 2 ^ nat (- q)) = of_int k * (2::rat) powi (- q)"
      using True by (simp add: power_int_nonneg_exp)
    also have "\<dots> \<le> x * 2 powi (- q)"
      using x by (intro mult_right_mono) simp_all
    also have "\<dots> = x / 2 powi q" by (simp add: power_int_minus divide_inverse)
    finally have "k * 2 ^ nat (- q) \<le> round_half_even (x / 2 powi q)"
      by (rule round_half_even_ge_int)
    then have "(of_int (k * 2 ^ nat (- q)) :: rat) \<le> of_int (round_half_even (x / 2 powi q))"
      by (simp only: of_int_le_iff)
    then have A: "of_int (k * 2 ^ nat (- q)) * (2::rat) powi q \<le> fl x"
      unfolding flx by (intro mult_right_mono) simp_all
    have B: "of_int (k * 2 ^ nat (- q)) * (2::rat) powi q = of_int k"
    proof -
      have "of_int (k * 2 ^ nat (- q)) * (2::rat) powi q = of_int k * (2 powi (- q) * 2 powi q)"
        using True by (simp add: power_int_nonneg_exp)
      also have "2 powi (- q) * 2 powi q = (1::rat)"
        by (simp add: power_int_add [symmetric])
      finally show ?thesis by simp
    qed
    show ?thesis using A unfolding B .
  next
    case False
    then have qe: "q = fexp x - 52" and qpos: "0 < q"
      by (simp_all add: q_def max_def split: if_splits)
    have e1: "(2::rat) powi (52 + q) = 2 powi 52 * 2 powi q"
      by (rule power_int_add) simp
    have "52 + q = fexp x" by (simp add: qe)
    then have "(2::rat) powi 52 * 2 powi q = 2 powi (fexp x)"
      unfolding e1 [symmetric] by (simp only:)
    also have "\<dots> \<le> x" using fexp_lower [OF x0] xpos by simp
    finally have "(2::rat) powi 52 \<le> x / 2 powi q"
      by (simp add: pos_le_divide_eq)
    then have "of_int (2 ^ 52) \<le> x / 2 powi q" by simp
    then have "2 ^ 52 \<le> round_half_even (x / 2 powi q)"
      by (rule round_half_even_ge_int)
    then have "(of_int (2 ^ 52) :: rat) \<le> of_int (round_half_even (x / 2 powi q))"
      by (simp only: of_int_le_iff)
    then have "of_int (2 ^ 52) * (2::rat) powi q \<le> fl x"
      unfolding flx by (intro mult_right_mono) simp_all
    moreover have "(2::rat) powi 1 \<le> 2 powi q"
      using qpos by (intro power_int_increasing) simp_all
    then have "of_int (2 ^ 52) * (2::rat) powi 1 \<le> of_int (2 ^ 52) * 2 powi q"
      by (intro mult_left_mono) simp_all
    moreover have "(of_int k :: rat) \<le> of_int (2 ^ 53)"
      using k by (simp only: of_int_le_iff)
    ultimately show ?thesis by simp
  qed
qed












text \<open>
  Where the floats part from exact arithmetic: the float nearest to \<open>0.6\<close> is below \<open>0.6\<close>, yet
  its float product with 5 is \<open>3\<close>; and \<open>2.675\<close>, a tie at 2 decimal places, is a float just
  below the tie, so that \<^verbatim>\<open>round(2.675, 2)\<close> is \<open>2.67\<close>. The statements below are therefore
  made in float arithmetic first, and in exact arithmetic where the two agree.
\<close>

lemma float_mul_rounds_up: "fl (6 / 10) * 5 < 3 \<and> float_mul (fl (6 / 10)) 5 = 3"
  by code_simp

lemma py_round_ndigits_tie:
  "py_round_ndigits (PyFloat (fl (2675 / 1000))) 2 = PyFloat (fl (267 / 100)) \<and>
   round_decimal 2 (2675 / 1000) = 268 / 100"
  by code_simp

section \<open>Bounds of the token bucket\<close>

lemma refill_tokens_bounds:
  assumes "0 \<le> tokens s" "tokens s \<le> BURST"
  shows "0 \<le> tokens (refill_tokens t s) \<and> tokens (refill_tokens t s) \<le> BURST"
  using assms by (simp add: refill_tokens_def Let_def BURST_def)

lemma qos_admit_bounds:
  assumes "0 \<le> tokens s" "tokens s \<le> BURST"
  shows "0 \<le> tokens (snd (qos_admit t s)) \<and> tokens (snd (qos_admit t s)) \<le> BURST"
  using refill_tokens_bounds [OF assms, of t] by (simp add: qos_admit_def Let_def)

lemma admit_states_bounds:
  assumes "0 \<le> tokens s" "tokens s \<le> BURST"
  shows "list_all (\<lambda>s'. 0 \<le> tokens s' \<and> tokens s' \<le> BURST) (admit_states ts s)"
  using assms
proof (induction ts arbitrary: s)
  case Nil
  then show ?case by simp
next
  case (Cons t ts)
  have "0 \<le> tokens (snd (qos_admit t s)) \<and> tokens (snd (qos_admit t s)) \<le> BURST"
    using Cons.prems by (rule qos_admit_bounds)
  then show ?case using Cons by simp
qed

text \<open>
  C1 (bucket bounds). Starting from the state of a freshly loaded module, where
  \<open>tokens = BURST\<close>, and for every sequence of clock readings at which \<^verbatim>\<open>qos_admit\<close> is
  called (non-decreasing or not), every state seen before the first call and after each
  call has \<open>0 \<le> tokens \<le> BURST\<close>.
\<close>

theorem bucket_bounds:
  "list_all (\<lambda>s. 0 \<le> tokens s \<and> tokens s \<le> BURST) (admit_states ts (initial_state t0))"
  by (rule admit_states_bounds) (simp_all add: initial_state_def BURST_def)

section \<open>Starvation and recovery of the bucket\<close>

lemma refill_tokens_add:
  "refill_tokens t s =
     (if 0 < refill_add t (last_refill s)
      then s\<lparr>tokens := min BURST (tokens s + refill_add t (last_refill s)), last_refill := t\<rparr>
      else s)"
  by (simp add: refill_tokens_def refill_add_def Let_def)

lemma refill_add_same: "refill_add t t = 0"
  by (simp add: refill_add_def float_sub_def float_mul_def fl_0 py_int_def)

lemma py_int_pos_iff: "0 < py_int x \<longleftrightarrow> 0 < \<lfloor>x\<rfloor>"
  by (auto simp: py_int_def floor_less_iff less_ceiling_iff) 

lemma py_int_eq_floor: "0 < \<lfloor>x\<rfloor> \<Longrightarrow> py_int x = \<lfloor>x\<rfloor>"
  by (auto simp: py_int_def)

lemma admit_run_append:
  "admit_run (xs @ ys) s =
     (fst (admit_run xs s) @ fst (admit_run ys (snd (admit_run xs s))),
      snd (admit_run ys (snd (admit_run xs s))))"
  by (induction xs arbitrary: s) (simp_all add: split_beta Let_def)

lemma admit_run_idle:
  assumes "refill_add t (last_refill s) \<le> 0" and "tokens s = int m"
  shows "admit_run (replicate n t) s =
           (replicate (min n m) (True, 0) @ replicate (n - m) (False, 1),
            s\<lparr>tokens := int (m - n)\<rparr>)"
  using assms
proof (induction n arbitrary: s m)
  case 0
  then show ?case by simp
next
  case (Suc n)
  have idle: "refill_tokens t s = s" using Suc.prems(1) by (simp add: refill_tokens_add)
  show ?case
  proof (cases m)
    case 0
    then have q: "qos_admit t s = ((False, 1), s)"
      using Suc.prems(2) idle by (simp add: qos_admit_def)
    have "admit_run (replicate n t) s = (replicate (min n 0) (True, 0) @ replicate (n - 0) (False, 1), s\<lparr>tokens := int (0 - n)\<rparr>)"
      using Suc.prems 0 by (intro Suc.IH) simp_all
    then show ?thesis using q 0 Suc.prems(2) by (simp add: replicate_append_same)
  next
    case (Suc m')
    then have q: "qos_admit t s = ((True, 0), s\<lparr>tokens := int m'\<rparr>)"
      using Suc.prems(2) idle by (simp add: qos_admit_def)
    have "admit_run (replicate n t) (s\<lparr>tokens := int m'\<rparr>) =
            (replicate (min n m') (True, 0) @ replicate (n - m') (False, 1),
             s\<lparr>tokens := int m'\<rparr>\<lparr>tokens := int (m' - n)\<rparr>)"
      using Suc.prems(1) by (intro Suc.IH) simp_all
    then show ?thesis using q Suc by simp
  qed
qed

lemma fl_5: "int_to_float TOKENS_PER_SEC = 5"
  using fl_of_int [of 5] by (simp add: int_to_float_def TOKENS_PER_SEC_def)

lemma refill_add_ge_5:
  assumes "t_last + 1 \<le> t" shows "5 \<le> refill_add t t_last"
proof -
  have "of_int 1 \<le> t - t_last" using assms by simp
  then have "of_int 1 \<le> fl (t - t_last)" by (intro fl_ge_int) simp_all
  then have "of_int 5 \<le> fl (t - t_last) * 5" by simp
  then have "of_int 5 \<le> fl (fl (t - t_last) * 5)" by (intro fl_ge_int) simp_all
  then have "5 \<le> \<lfloor>fl (fl (t - t_last) * 5)\<rfloor>" by (simp add: le_floor_iff)
  then show ?thesis
    by (simp add: refill_add_def float_sub_def float_mul_def fl_5 py_int_def)
qed

lemma qos_admit_recovers:
  assumes "last_refill s + 1 \<le> t" "0 \<le> tokens s"
  shows "fst (qos_admit t s) = (True, 0)"
  using refill_add_ge_5 [OF assms(1)] assms(2)
  by (simp add: qos_admit_def refill_tokens_add Let_def BURST_def)

text \<open>
  C2 (starvation and recovery). The module is loaded at reading \<open>t0\<close> with the bucket
  full (\<open>BURST = 10\<close>, \<open>TOKENS_PER_SEC = 5\<close>). Eleven calls of \<^verbatim>\<open>qos_admit\<close> at one
  instant \<open>t\<close>, not before \<open>t0\<close>, give ten times \<open>(True, 0)\<close> and then \<open>(False, 1)\<close>;
  a further call at any reading at least one second later gives \<open>(True, 0)\<close> again.
\<close>

theorem starvation_recovery:
  assumes "t0 \<le> t" and "t + 1 \<le> t'"
  shows "fst (admit_run (replicate 11 t @ [t']) (initial_state t0)) =
           replicate 10 (True, 0) @ [(False, 1), (True, 0)]"
proof -
  define s1 where "s1 = snd (qos_admit t (initial_state t0))"
  have first: "fst (qos_admit t (initial_state t0)) = (True, 0)"
    by (simp add: qos_admit_def refill_tokens_add initial_state_def BURST_def Let_def)
  have tok: "tokens s1 = int 9"
    by (simp add: s1_def qos_admit_def refill_tokens_add initial_state_def BURST_def Let_def)
  have lr: "last_refill s1 = t0 \<or> last_refill s1 = t"
    by (simp add: s1_def qos_admit_def refill_tokens_add initial_state_def Let_def)
  have idle: "refill_add t (last_refill s1) \<le> 0"
    by (simp add: s1_def qos_admit_def refill_tokens_add initial_state_def Let_def refill_add_same)
  have rest: "admit_run (replicate 10 t) s1 =
                (replicate (min 10 9) (True, 0) @ replicate (10 - 9) (False, 1),
                 s1\<lparr>tokens := int (9 - 10)\<rparr>)"
    using idle tok by (rule admit_run_idle)
  define s2 where "s2 = s1\<lparr>tokens := 0\<rparr>"
  have "last_refill s2 + 1 \<le> t'" using lr assms by (auto simp: s2_def)
  then have last: "fst (qos_admit t' s2) = (True, 0)"
    by (rule qos_admit_recovers) (simp add: s2_def)
  have "replicate 11 t = t # replicate 10 t" by (simp add: numeral_eq_Suc)
  then have "fst (admit_run (replicate 11 t @ [t']) (initial_state t0)) =
        fst (qos_admit t (initial_state t0)) # fst (admit_run (replicate 10 t @ [t']) s1)"
    by (simp add: s1_def split_beta Let_def)
  also have "fst (admit_run (replicate 10 t @ [t']) s1) =
        replicate 9 (True, 0) @ [(False, 1)] @ [fst (qos_admit t' s2)]"
    by (simp add: admit_run_append rest s2_def split_beta Let_def)
  finally show ?thesis using first last by (simp add: numeral_eq_Suc)
qed


theorem starvation_recovery_witness:
  "(100::rat) \<le> 401 / 4 \<and> (401 / 4 :: rat) + 1 \<le> 203 / 2 \<and>
   fst (admit_run (replicate 11 (401 / 4) @ [203 / 2]) (initial_state 100)) =
     replicate 10 (True, 0) @ [(False, 1), (True, 0)]"
  using starvation_recovery [of 100 "401 / 4" "203 / 2"] by simp

section \<open>Quantised refill\<close>

lemma on_grid_rep:
  assumes "on_grid g t" shows "t = of_int \<lfloor>t * 2 ^ g\<rfloor> * 2 powi (- int g)"
proof -
  have "of_int \<lfloor>t * 2 ^ g\<rfloor> * (2::rat) powi (- int g) = t * 2 ^ g * 2 powi (- int g)"
    using assms by (simp add: on_grid_def)
  also have "\<dots> = t * (2 powi (int g) * 2 powi (- int g))" by simp
  also have "2 powi (int g) * 2 powi (- int g) = (1::rat)" by (simp add: power_int_minus)
  finally show ?thesis by simp
qed

text \<open>On a clock grid the two float operations of the refill are exact.\<close>

lemma spec_add_exact:
  assumes g: "g \<le> 1074" and gn: "on_grid g now" and gt: "on_grid g t_last"
    and small: "5 * \<bar>now - t_last\<bar> * 2 ^ g < 2 ^ 53"
  shows "spec_add now t_last = exact_add now t_last"
proof -
  define a where "a = \<lfloor>now * 2 ^ g\<rfloor>"
  define b where "b = \<lfloor>t_last * 2 ^ g\<rfloor>"
  define P :: rat where "P = 2 powi (- int g)"
  have Ppos: "0 < P" by (simp add: P_def)
  have now: "now = of_int a * P" unfolding a_def P_def using gn by (rule on_grid_rep)
  have tl: "t_last = of_int b * P" unfolding b_def P_def using gt by (rule on_grid_rep)
  have diff: "now - t_last = of_int (a - b) * P" by (simp add: now tl algebra_simps)
  have PP: "P * 2 ^ g = 1" by (simp add: P_def power_int_minus)
  have "5 * \<bar>now - t_last\<bar> * 2 ^ g = 5 * \<bar>of_int (a - b)\<bar> * (P * 2 ^ g)"
    using Ppos by (simp add: diff abs_mult)
  then have "(of_int (5 * \<bar>a - b\<bar>) :: rat) < of_int (2 ^ 53)" using small by (simp add: PP)
  then have ab5: "5 * \<bar>a - b\<bar> < 2 ^ 53" by (simp only: of_int_less_iff)
  have gq: "- 1074 \<le> - int g" using g by simp
  have "\<bar>a - b\<bar> < 2 ^ 53" using ab5 by simp
  then have "fl (of_int (a - b) * 2 powi (- int g)) = of_int (a - b) * 2 powi (- int g)"
    using gq by (rule fl_representable)
  then have sub: "float_sub now t_last = now - t_last"
    by (simp add: float_sub_def diff P_def)
  have "\<bar>5 * (a - b)\<bar> = \<bar>5\<bar> * \<bar>a - b\<bar>" by (rule abs_mult)
  then have "\<bar>5 * (a - b)\<bar> < 2 ^ 53" using ab5 by simp
  then have "fl (of_int (5 * (a - b)) * 2 powi (- int g)) = of_int (5 * (a - b)) * 2 powi (- int g)"
    using gq by (rule fl_representable)
  moreover have "(now - t_last) * 5 = of_int (5 * (a - b)) * 2 powi (- int g)"
    by (simp add: diff P_def)
  ultimately have "fl ((now - t_last) * 5) = (now - t_last) * 5" by (simp only:)
  moreover have "int_to_float TOKENS_PER_SEC = 5"
    using fl_of_int [of 5] by (simp add: int_to_float_def TOKENS_PER_SEC_def)
  ultimately show ?thesis
    by (simp add: spec_add_def exact_add_def sub float_mul_def TOKENS_PER_SEC_def)
qed

text \<open>
  C4 (refill). With \<open>elapsed = now - t_last\<close> and \<open>add = floor (elapsed * R)\<close>, both computed
  in the program's float arithmetic with \<open>R = TOKENS_PER_SEC\<close>: when \<open>add > 0\<close> the call
  sets \<open>tokens\<close> to \<open>min BURST (tokens + add)\<close> and \<open>last_refill\<close> to \<open>now\<close>; when
  \<open>add = 0\<close> (or less, after a backward clock step) it changes nothing, so the elapsed
  fraction stays measured from the old \<open>last_refill\<close>. The code truncates where the
  specification takes the floor; the two differ only on negative products, where neither
  is positive. When both clock readings are on a grid \<open>g\<close> and less than
  \<open>2 ^ 53 / (5 * 2 ^ g)\<close> seconds apart, the float operations are exact and \<open>add\<close> is the
  floor of the exact product.
\<close>

theorem refill_tokens_quantized:
  "(0 < spec_add now (last_refill s) \<longrightarrow>
      refill_tokens now s =
        s\<lparr>tokens := min BURST (tokens s + spec_add now (last_refill s)), last_refill := now\<rparr>)
   \<and> (spec_add now (last_refill s) \<le> 0 \<longrightarrow> refill_tokens now s = s)
   \<and> (g \<le> 1074 \<and> on_grid g now \<and> on_grid g (last_refill s) \<and>
        5 * \<bar>now - last_refill s\<bar> * 2 ^ g < 2 ^ 53 \<longrightarrow>
      spec_add now (last_refill s) = exact_add now (last_refill s))"
  using py_int_pos_iff [of "float_mul (float_sub now (last_refill s)) (int_to_float TOKENS_PER_SEC)"]
    py_int_eq_floor [of "float_mul (float_sub now (last_refill s)) (int_to_float TOKENS_PER_SEC)"]
    spec_add_exact [of g now "last_refill s"]
  by (auto simp: refill_tokens_add refill_add_def spec_add_def)

theorem refill_tokens_quantized_witness:
  "(1::nat) \<le> 1074 \<and> on_grid 1 (201 / 2) \<and> on_grid 1 100 \<and>
   5 * \<bar>201 / 2 - 100\<bar> * 2 ^ 1 < (2 ^ 53 :: rat) \<and>
   spec_add (201 / 2) 100 = 2 \<and> exact_add (201 / 2) 100 = 2 \<and>
   refill_tokens (201 / 2) \<lparr>tokens = 3, last_refill = 100, WINDOW = []\<rparr> =
     \<lparr>tokens = 5, last_refill = 201 / 2, WINDOW = []\<rparr> \<and>
   spec_add 102 100 = 10 \<and>
   refill_tokens 102 \<lparr>tokens = 3, last_refill = 100, WINDOW = []\<rparr> =
     \<lparr>tokens = 10, last_refill = 102, WINDOW = []\<rparr> \<and>
   spec_add (801 / 8) 100 = 0 \<and>
   refill_tokens (801 / 8) \<lparr>tokens = 3, last_refill = 100, WINDOW = []\<rparr> =
     \<lparr>tokens = 3, last_refill = 100, WINDOW = []\<rparr>"
proof -
  have g: "on_grid 1 (201 / 2)" "on_grid 1 100" by (simp_all add: on_grid_def)
  have e: "exact_add (201 / 2) 100 = 2" by code_simp
  have b: "spec_add 102 100 = 10" by code_simp
  have c: "spec_add (801 / 8) 100 = 0" by code_simp
  show ?thesis
    using g e b c
      refill_tokens_quantized [of "201 / 2" "\<lparr>tokens = 3, last_refill = 100, WINDOW = []\<rparr>" 1]
      refill_tokens_quantized [of 102 "\<lparr>tokens = 3, last_refill = 100, WINDOW = []\<rparr>" 0]
      refill_tokens_quantized [of "801 / 8" "\<lparr>tokens = 3, last_refill = 100, WINDOW = []\<rparr>" 0]
    by (simp add: BURST_def)
qed

section \<open>Eviction from the window\<close>

lemma deque_append_length:
  "length dq \<le> n \<Longrightarrow> length (deque_append n dq x) \<le> n"
  by (simp add: deque_append_def Let_def)

lemma deque_append_drop:
  assumes "length dq \<le> n"
  shows "deque_append n dq x = drop (length dq + 1 - n) (dq @ [x])"
proof (cases "length dq = n")
  case True
  then have "deque_append n dq x = tl (dq @ [x])" by (simp add: deque_append_def)
  also have "\<dots> = drop (Suc 0) (dq @ [x])" by (simp only: drop_Suc drop_0)
  finally show ?thesis using True by simp
next
  case False
  then show ?thesis using assms by (simp add: deque_append_def)
qed

lemma record_all_window:
  assumes "length (WINDOW s) \<le> WINDOW_maxlen"
  shows "WINDOW (record_all ds s) =
           drop (length (WINDOW s) + length ds - WINDOW_maxlen) (WINDOW s @ ds)"
  using assms
proof (induction ds arbitrary: s)
  case Nil
  then show ?case by simp
next
  case (Cons d ds)
  obtain t e dur st where d: "d = (t, e, dur, st)" by (cases d) auto
  define s1 where "s1 = record_sample t e dur st s"
  define w where "w = WINDOW s"
  have w1: "WINDOW s1 = drop (length w + 1 - WINDOW_maxlen) (w @ [d])"
    using Cons.prems by (simp add: s1_def record_sample_def deque_append_drop d w_def)
  have len1: "length (WINDOW s1) \<le> WINDOW_maxlen"
    using Cons.prems by (simp add: s1_def record_sample_def deque_append_length)
  have "WINDOW (record_all (d # ds) s) = WINDOW (record_all ds s1)"
    by (simp add: d s1_def)
  also have "\<dots> = drop (length (WINDOW s1) + length ds - WINDOW_maxlen) (WINDOW s1 @ ds)"
    using len1 by (rule Cons.IH)
  also have "\<dots> = drop (length w + length (d # ds) - WINDOW_maxlen) (w @ d # ds)"
  proof (cases "length w = WINDOW_maxlen")
    case True
    then have e1: "WINDOW s1 = drop (Suc 0) (w @ [d])" by (simp add: w1)
    have e2: "drop (length ds) (drop (Suc 0) (w @ [d]) @ ds) = drop (Suc (length ds)) (w @ d # ds)"
      by (cases w) simp_all
    have e3: "length (WINDOW s1) + length ds - WINDOW_maxlen = length ds"
      using True len1 w1 by simp
    have e4: "length w + length (d # ds) - WINDOW_maxlen = Suc (length ds)"
      using True by simp
    show ?thesis unfolding e3 e4 by (simp only: e1 e2)
  next
    case False
    then have "WINDOW s1 = w @ [d]" using Cons.prems by (simp add: w1 w_def)
    then show ?thesis by simp
  qed
  finally show ?case by (simp only: w_def)
qed

text \<open>The bounded deque never holds more than \<open>WINDOW_maxlen\<close> samples.\<close>

lemma record_all_length:
  assumes "length (WINDOW s) \<le> WINDOW_maxlen"
  shows "length (WINDOW (record_all ds s)) \<le> WINDOW_maxlen"
  using assms by (simp add: record_all_window [OF assms])

text \<open>
  C5 (window eviction). After \<open>WINDOW_maxlen + k\<close> calls of \<^verbatim>\<open>record\<close> on an empty window
  (\<open>WINDOW_maxlen = 2000\<close>), the window holds exactly \<open>WINDOW_maxlen\<close> samples: the recorded
  ones without the oldest \<open>k\<close>, in the order of insertion.
\<close>

theorem window_eviction:
  assumes "WINDOW s = []" and "length ds = WINDOW_maxlen + k"
  shows "WINDOW (record_all ds s) = drop k ds \<and>
         length (WINDOW (record_all ds s)) = WINDOW_maxlen"
  using assms record_all_window [of s ds] by simp

theorem window_eviction_witness:
  "WINDOW (initial_state 0) = [] \<and>
   length (map (\<lambda>i. (rat_of_nat i, ''/slow'', int i, 200)) [0..<2005]) = WINDOW_maxlen + 5 \<and>
   WINDOW (record_all (map (\<lambda>i. (rat_of_nat i, ''/slow'', int i, 200)) [0..<2005])
     (initial_state 0)) =
     map (\<lambda>i. (rat_of_nat i, ''/slow'', int i, 200)) [5..<2005] \<and>
   hd (WINDOW (record_all (map (\<lambda>i. (rat_of_nat i, ''/slow'', int i, 200)) [0..<2005])
     (initial_state 0))) = (5, ''/slow'', 5, 200) \<and>
   length (WINDOW (record_all (map (\<lambda>i. (rat_of_nat i, ''/slow'', int i, 200)) [0..<2005])
     (initial_state 0))) = 2000"
  using window_eviction [of "initial_state 0"
      "map (\<lambda>i. (rat_of_nat i, ''/slow'', int i, 200)) [0..<2005]" 5]
  by (simp add: initial_state_def WINDOW_maxlen_def drop_map hd_map del: upt_rec_numeral)

section \<open>The snapshot of a non-empty window\<close>

lemma then_err_Inr: "then_err (Inr v) k = k v"
  by (simp add: then_err_def)

lemma int_truediv_Inr: "b \<noteq> 0 \<Longrightarrow> int_truediv a b = Inr (fl (of_int a / of_int b))"
  by (simp add: int_truediv_def)

lemma pct_Inr:
  assumes "durations \<noteq> []"
  shows "pct durations p = Inr (durations ! spec_pct_index p (length durations))"
proof -
  define idx where
    "idx = py_round (float_mul (fl (of_int p / 100)) (int_to_float (int (length durations) - 1)))"
  define j where "j = max 0 (min idx (int (length durations) - 1))"
  have n: "0 < length durations" using assms by simp
  then have j: "0 \<le> j \<and> j < int (length durations)" by (auto simp: j_def)
  have "pct durations p = py_getitem durations j"
    by (simp add: pct_def int_truediv_Inr then_err_Inr idx_def j_def)
  also have "\<dots> = Inr (durations ! nat j)" using j by (simp add: py_getitem_def)
  also have "nat j = spec_pct_index p (length durations)"
    by (simp add: j_def idx_def spec_pct_index_def)
  finally show ?thesis .
qed


lemma py_getitem_last:
  assumes "xs \<noteq> []" shows "py_getitem xs (- 1) = Inr (last xs)"
proof -
  have n: "Suc 0 \<le> length xs" using assms by (cases xs) simp_all
  then have "nat (int (length xs) + - 1) = length xs - 1" by linarith
  then show ?thesis using n assms by (simp add: py_getitem_def last_conv_nth)
qed

lemma diffs_absdiffs:
  "map (\<lambda>i. \<bar>xs ! i - xs ! (i - 1)\<bar>) [1..<length xs] = spec_absdiffs xs"
proof (rule nth_equalityI)
  show "length (map (\<lambda>i. \<bar>xs ! i - xs ! (i - 1)\<bar>) [1..<length xs]) = length (spec_absdiffs xs)"
    by (simp add: spec_absdiffs_def)
next
  fix i assume "i < length (map (\<lambda>i. \<bar>xs ! i - xs ! (i - 1)\<bar>) [1..<length xs])"
  then have i: "i < length xs - 1" by simp
  then show "map (\<lambda>i. \<bar>xs ! i - xs ! (i - 1)\<bar>) [1..<length xs] ! i = spec_absdiffs xs ! i"
    by (simp add: spec_absdiffs_def nth_tl)
qed

lemma length_spec_absdiffs: "length (spec_absdiffs xs) = length xs - 1"
  by (simp add: spec_absdiffs_def)

lemma compute_metrics_nonempty:
  assumes "WINDOW s \<noteq> []"
  shows "compute_metrics now s =
    (Inr (MetricsDict
       \<lparr>count = int (length (WINDOW s)),
        error_rate = spec_error_rate (WINDOW s),
        rps_last_60s = spec_rps now (WINDOW s),
        latency_ms =
          \<lparr>p50 = sort (map sample_duration_ms (WINDOW s)) ! spec_pct_index 50 (length (WINDOW s)),
           p90 = sort (map sample_duration_ms (WINDOW s)) ! spec_pct_index 90 (length (WINDOW s)),
           p95 = sort (map sample_duration_ms (WINDOW s)) ! spec_pct_index 95 (length (WINDOW s)),
           p99 = sort (map sample_duration_ms (WINDOW s)) ! spec_pct_index 99 (length (WINDOW s)),
           max_ms = last (sort (map sample_duration_ms (WINDOW s)))\<rparr>,
        jitter_ms_avg_absdiff = spec_jitter (sort (map sample_duration_ms (WINDOW s))),
        qos_policy = \<lparr>token_bucket = \<lparr>tokens_per_sec = 5, burst = 10\<rparr>\<rparr>\<rparr>), s)"
proof -
  define ds where "ds = sort (map sample_duration_ms (WINDOW s))"
  have dl: "length ds = length (WINDOW s)" by (simp add: ds_def)
  have ds: "ds \<noteq> []" "length ds = length (WINDOW s)"
    using assms dl by (metis length_0_conv, simp)
  have len: "int (length (WINDOW s)) \<noteq> 0" using assms by simp
  have pcts: "pct ds p = Inr (ds ! spec_pct_index p (length (WINDOW s)))" for p
    using pct_Inr [OF ds(1), of p] by (simp add: ds(2))
  have mx: "py_getitem ds (- 1) = Inr (last ds)" using ds(1) by (rule py_getitem_last)
  have er: "int_truediv (int (length (filter (\<lambda>d. 400 \<le> sample_status d) (WINDOW s))))
              (int (length (WINDOW s))) =
            Inr (fl (of_nat (length (filter (\<lambda>d. 400 \<le> sample_status d) (WINDOW s))) /
                     of_nat (length (WINDOW s))))"
    using len by (simp add: int_truediv_Inr)
  have rps: "(if filter (\<lambda>d. float_sub now 60 \<le> sample_t d) (WINDOW s) \<noteq> []
              then map_sum id PyFloat
                (int_truediv (int (length (filter (\<lambda>d. float_sub now 60 \<le> sample_t d) (WINDOW s)))) 60)
              else Inr (PyInt 0)) =
             Inr (if length (filter (\<lambda>d. float_sub now 60 \<le> sample_t d) (WINDOW s)) = 0 then PyInt 0
                  else PyFloat (fl (of_nat (length (filter (\<lambda>d. float_sub now 60 \<le> sample_t d) (WINDOW s))) / 60)))"
    by (simp add: int_truediv_Inr)
  have jit: "(if spec_absdiffs ds \<noteq> []
              then map_sum id PyFloat
                (int_truediv (sum_list (spec_absdiffs ds)) (int (length (spec_absdiffs ds))))
              else Inr (PyInt 0)) =
             Inr (if length ds = 1 then PyInt 0
                  else PyFloat (fl (of_int (sum_list (spec_absdiffs ds)) /
                                    of_nat (length (spec_absdiffs ds)))))"
  proof (cases "length ds = 1")
    case True
    then have "spec_absdiffs ds = []" using length_spec_absdiffs [of ds] by simp
    then show ?thesis using True by simp
  next
    case False
    then have "Suc (Suc 0) \<le> length ds" using ds(1) by (cases ds) (simp_all add: Suc_le_eq)
    then have "length (spec_absdiffs ds) \<noteq> 0" by (simp add: length_spec_absdiffs)
    then have "spec_absdiffs ds \<noteq> []" by (simp del: length_0_conv)
    then show ?thesis using False by (simp add: int_truediv_Inr)
  qed
  show ?thesis
    using assms
    unfolding compute_metrics_def Let_def ds_def [symmetric] diffs_absdiffs er rps jit
      pcts mx then_err_Inr
    by (simp add: spec_error_rate_def spec_rps_def spec_jitter_def Let_def
        TOKENS_PER_SEC_def BURST_def)
qed

text \<open>\<^verbatim>\<open>compute_metrics\<close> never raises.\<close>

lemma compute_metrics_never_raises: "fst (compute_metrics now s) \<noteq> Inl e"
  by (cases "WINDOW s = []") (simp_all add: compute_metrics_nonempty, simp add: compute_metrics_def)

section \<open>Percentiles\<close>







section \<open>The empty snapshot\<close>

text \<open>
  C6 (empty snapshot). On an empty window, in particular right after \<^verbatim>\<open>qos_reset\<close>,
  \<^verbatim>\<open>compute_metrics\<close> returns the empty dictionary; and on no window does it raise
  (no division by zero, no index out of range), so the empty dictionary is not a failure.
\<close>

theorem empty_snapshot:
  "(WINDOW s = [] \<longrightarrow> fst (compute_metrics now s) = Inr EmptyDict) \<and>
   fst (compute_metrics now (qos_reset s)) = Inr EmptyDict \<and>
   (\<forall>e. fst (compute_metrics now s) \<noteq> Inl e)"
  by (simp add: compute_metrics_never_raises) (simp add: compute_metrics_def qos_reset_def)

theorem empty_snapshot_witness:
  "WINDOW (initial_state 0) = [] \<and>
   fst (compute_metrics 6 (initial_state 0)) = Inr EmptyDict \<and>
   fst (compute_metrics 6 (qos_reset \<lparr>tokens = 10, last_refill = 0, WINDOW = example_window\<rparr>)) =
     Inr EmptyDict"
  using empty_snapshot [of "initial_state 0" 6]
    empty_snapshot [of "\<lparr>tokens = 10, last_refill = 0, WINDOW = example_window\<rparr>" 6]
  by (simp add: initial_state_def)

section \<open>Jitter\<close>







section \<open>Throughput\<close>






section \<open>The snapshot reads and does not write\<close>

text \<open>
  C10 (frame). \<^verbatim>\<open>compute_metrics\<close> leaves the window, the token count and the time of
  the last refill as they are; its result does not depend on the token count or on the
  time of the last refill; and the \<open>qos_policy\<close> it reports is the constant configuration
  \<open>tokens_per_sec = 5\<close>, \<open>burst = 10\<close>.
\<close>

theorem snapshot_read_only:
  "snd (compute_metrics now s) = s \<and>
   fst (compute_metrics now (s\<lparr>tokens := k, last_refill := t\<rparr>)) = fst (compute_metrics now s) \<and>
   (\<forall>m. fst (compute_metrics now s) = Inr (MetricsDict m) \<longrightarrow>
        qos_policy m = \<lparr>token_bucket = \<lparr>tokens_per_sec = 5, burst = 10\<rparr>\<rparr>)"
proof (cases "WINDOW s = []")
  case True
  then show ?thesis by (simp add: compute_metrics_def)
next
  case False
  then have "WINDOW (s\<lparr>tokens := k, last_refill := t\<rparr>) \<noteq> []" by simp
  then show ?thesis
    using False by (auto simp: compute_metrics_nonempty)
qed

theorem snapshot_read_only_witness:
  "snd (compute_metrics 6 \<lparr>tokens = 3, last_refill = 2, WINDOW = example_window\<rparr>) =
     \<lparr>tokens = 3, last_refill = 2, WINDOW = example_window\<rparr> \<and>
   (\<exists>m. fst (compute_metrics 6 \<lparr>tokens = 3, last_refill = 2, WINDOW = example_window\<rparr>) =
          Inr (MetricsDict m) \<and>
        qos_policy m = \<lparr>token_bucket = \<lparr>tokens_per_sec = 5, burst = 10\<rparr>\<rparr>)"
proof -
  have w: "WINDOW \<lparr>tokens = 3, last_refill = 2, WINDOW = example_window\<rparr> \<noteq> []"
    by (simp add: example_window_def)
  obtain m where m: "fst (compute_metrics 6 \<lparr>tokens = 3, last_refill = 2, WINDOW = example_window\<rparr>) =
      Inr (MetricsDict m)"
    using compute_metrics_nonempty [OF w, of 6] by simp
  show ?thesis
    using snapshot_read_only [of 6 "\<lparr>tokens = 3, last_refill = 2, WINDOW = example_window\<rparr>"] m
    by auto
qed

end
